theory Spec2Isabelle
  imports Main
begin

section \<open>The user cache (services/userCache)\<close>

text \<open>
  Modelled from the spec: the \<^verbatim>\<open>User\<close> type is imported from \<^verbatim>\<open>../types\<close>, which is
  not among the sources. The spec describes it as a record with a unique identifier, a
  username, an email and an optional avatar reference; the page reads exactly the fields
  \<^verbatim>\<open>username\<close>, \<^verbatim>\<open>email\<close> and \<^verbatim>\<open>avatar\<close> (the latter through \<^verbatim>\<open>?? ''\<close>).
\<close>

record user =
  uid :: nat
  username :: string
  email :: string
  avatar :: "string option"

text \<open>
  The module holds two pieces of state: \<^verbatim>\<open>let cachedUser: User | null\<close> and
  \<^verbatim>\<open>const listeners = new Set<Listener>()\<close>.

  A listener is a JavaScript function and may call back into the cache while it runs.
  A listener is therefore named by an identifier, and what it does when invoked is
  given by a reaction table: from the invocations made so far and the value it is
  handed, the calls it makes on \<^verbatim>\<open>userCache\<close>, in order.
  \<open>Unsubscribe l\<close> is a call of the closure that \<^verbatim>\<open>subscribe\<close> returned for \<open>l\<close>,
  whose body is \<^verbatim>\<open>listeners.delete(listener)\<close>.
\<close>

type_synonym lid = nat

datatype action =
    SetCurrentUser "user option"
  | Clear
  | Subscribe lid
  | Unsubscribe lid

datatype event = Invoked lid "user option"

type_synonym reaction = "lid \<Rightarrow> event list \<Rightarrow> user option \<Rightarrow> action list"

text \<open>
  A JavaScript \<^verbatim>\<open>Set\<close> keeps its entries in insertion order. \<^verbatim>\<open>delete\<close> replaces the
  entry by an empty slot, \<^verbatim>\<open>add\<close> appends unless the value is already present, and
  \<^verbatim>\<open>forEach\<close> walks the slots by index, skipping empty ones and re-reading the number of
  slots after every callback. The set is a list of slots, \<open>None\<close> for an empty one.
\<close>

definition add_listener :: "lid \<Rightarrow> lid option list \<Rightarrow> lid option list" where
  "add_listener l ls = (if Some l \<in> set ls then ls else ls @ [Some l])"

definition delete_listener :: "lid \<Rightarrow> lid option list \<Rightarrow> lid option list" where
  "delete_listener l ls = map (\<lambda>e. if e = Some l then None else e) ls"

fun live :: "lid option list \<Rightarrow> lid list" where
  "live [] = []"
| "live (None # ls) = live ls"
| "live (Some l # ls) = l # live ls"

text \<open>
  The call stack is explicit. \<open>Script as\<close> is a function body with the cache calls
  \<open>as\<close> still to make; \<open>ForEach i\<close> is an activation of \<^verbatim>\<open>notify\<close> whose
  \<^verbatim>\<open>listeners.forEach\<close> is about to look at slot \<open>i\<close>.
\<close>

datatype frame = Script "action list" | ForEach nat

record cache =
  cachedUser :: "user option"
  listeners :: "lid option list"
  stack :: "frame list"
  log :: "event list"

definition getCurrentUser :: "cache \<Rightarrow> user option" where
  "getCurrentUser c = cachedUser c"

text \<open>\<^verbatim>\<open>listener(cachedUser)\<close>: the argument is the cell's value at the moment of the call.\<close>

definition invoke :: "reaction \<Rightarrow> lid \<Rightarrow> cache \<Rightarrow> cache" where
  "invoke react l c =
     c\<lparr>stack := Script (react l (log c) (cachedUser c)) # stack c,
       log := log c @ [Invoked l (cachedUser c)]\<rparr>"

fun perform :: "reaction \<Rightarrow> action \<Rightarrow> cache \<Rightarrow> cache" where
  "perform react (SetCurrentUser u) c = c\<lparr>cachedUser := u, stack := ForEach 0 # stack c\<rparr>"
| "perform react Clear c = c\<lparr>cachedUser := None, stack := ForEach 0 # stack c\<rparr>"
| "perform react (Subscribe l) c = invoke react l (c\<lparr>listeners := add_listener l (listeners c)\<rparr>)"
| "perform react (Unsubscribe l) c = c\<lparr>listeners := delete_listener l (listeners c)\<rparr>"

fun step :: "reaction \<Rightarrow> cache \<Rightarrow> cache" where
  "step react c =
     (case stack c of
        [] \<Rightarrow> c
      | Script [] # rest \<Rightarrow> c\<lparr>stack := rest\<rparr>
      | Script (a # as) # rest \<Rightarrow> perform react a (c\<lparr>stack := Script as # rest\<rparr>)
      | ForEach i # rest \<Rightarrow>
          (if i < length (listeners c) then
             (case listeners c ! i of
                None \<Rightarrow> c\<lparr>stack := ForEach (Suc i) # rest\<rparr>
              | Some l \<Rightarrow> invoke react l (c\<lparr>stack := ForEach (Suc i) # rest\<rparr>))
           else c\<lparr>stack := rest\<rparr>))"

fun steps :: "reaction \<Rightarrow> nat \<Rightarrow> cache \<Rightarrow> cache" where
  "steps react 0 c = c"
| "steps react (Suc n) c = steps react n (step react c)"

text \<open>
  A listener that keeps calling \<^verbatim>\<open>setCurrentUser\<close> makes the program run forever (in
  JavaScript: until the stack overflows), so running to completion takes fuel.
\<close>

fun run :: "reaction \<Rightarrow> nat \<Rightarrow> cache \<Rightarrow> cache option" where
  "run react 0 c = (if stack c = [] then Some c else None)"
| "run react (Suc n) c = (if stack c = [] then Some c else run react n (step react c))"

text \<open>The number of \<^verbatim>\<open>notify\<close> activations on the call stack.\<close>

fun fanout_depth :: "frame list \<Rightarrow> nat" where
  "fanout_depth [] = 0"
| "fanout_depth (Script as # fs) = fanout_depth fs"
| "fanout_depth (ForEach i # fs) = Suc (fanout_depth fs)"

section \<open>Observations on runs of the cache\<close>

text \<open>The values a listener has been invoked with, oldest first.\<close>

fun heard :: "lid \<Rightarrow> event list \<Rightarrow> user option list" where
  "heard l [] = []"
| "heard l (Invoked l' v # es) = (if l' = l then v # heard l es else heard l es)"

text \<open>Whether some function body on the call stack still has a \<^verbatim>\<open>subscribe(l)\<close> to make.\<close>

fun resubscribed :: "lid \<Rightarrow> frame list \<Rightarrow> bool" where
  "resubscribed l [] = False"
| "resubscribed l (Script as # fs) = (Subscribe l \<in> set as \<or> resubscribed l fs)"
| "resubscribed l (ForEach i # fs) = resubscribed l fs"

text \<open>
  The number of steps \<^verbatim>\<open>listeners.forEach\<close> takes over the given slots when no callback
  makes a cache call: one for an empty slot, two for a listener (the call and its return),
  and one to leave the loop.
\<close>

fun fanout_steps :: "lid option list \<Rightarrow> nat" where
  "fanout_steps [] = 1"
| "fanout_steps (None # ls) = 1 + fanout_steps ls"
| "fanout_steps (Some l # ls) = 2 + fanout_steps ls"

section \<open>The account settings page (pages/AccountSettingsPage)\<close>

subsection \<open>Strings\<close>

text \<open>
  A string is the list of the bytes of its UTF-8 encoding.

  \<^verbatim>\<open>String.prototype.trim\<close> strips from both ends the code points that ECMAScript
  calls WhiteSpace or LineTerminator: U+0009 to U+000D, U+0020, U+00A0, U+1680, U+2000 to
  U+200A, U+2028, U+2029, U+202F, U+205F, U+3000 and U+FEFF. \<open>whiteSpace\<close> lists their
  encodings. No encoding is the end or the start of the encoding of another code point,
  so stripping them as byte sequences strips exactly these code points.
\<close>

definition whiteSpace :: "string list" where
  "whiteSpace =
     [[CHR 0x09], [CHR 0x0A], [CHR 0x0B], [CHR 0x0C], [CHR 0x0D], [CHR 0x20],
      [CHR 0xC2, CHR 0xA0],
      [CHR 0xE1, CHR 0x9A, CHR 0x80],
      [CHR 0xE2, CHR 0x80, CHR 0x80], [CHR 0xE2, CHR 0x80, CHR 0x81],
      [CHR 0xE2, CHR 0x80, CHR 0x82], [CHR 0xE2, CHR 0x80, CHR 0x83],
      [CHR 0xE2, CHR 0x80, CHR 0x84], [CHR 0xE2, CHR 0x80, CHR 0x85],
      [CHR 0xE2, CHR 0x80, CHR 0x86], [CHR 0xE2, CHR 0x80, CHR 0x87],
      [CHR 0xE2, CHR 0x80, CHR 0x88], [CHR 0xE2, CHR 0x80, CHR 0x89],
      [CHR 0xE2, CHR 0x80, CHR 0x8A],
      [CHR 0xE2, CHR 0x80, CHR 0xA8], [CHR 0xE2, CHR 0x80, CHR 0xA9],
      [CHR 0xE2, CHR 0x80, CHR 0xAF],
      [CHR 0xE2, CHR 0x81, CHR 0x9F],
      [CHR 0xE3, CHR 0x80, CHR 0x80],
      [CHR 0xEF, CHR 0xBB, CHR 0xBF]]"

text \<open>Strips, as long as there is one, a leading occurrence of one of the given sequences.\<close>

function strip :: "string list \<Rightarrow> string \<Rightarrow> string" where
  "strip ws s =
     (case find (\<lambda>w. w \<noteq> [] \<and> take (length w) s = w) ws of
        None \<Rightarrow> s
      | Some w \<Rightarrow> strip ws (drop (length w) s))"
  by pat_completeness auto
termination
proof (relation "measure (\<lambda>(ws, s). length s)")
  show "wf (measure (\<lambda>(ws, s). length s))"
    by simp
next
  fix ws :: "string list" and s w :: string
  assume "find (\<lambda>w. w \<noteq> [] \<and> take (length w) s = w) ws = Some w"
  then have nonempty: "w \<noteq> []" and start: "take (length w) s = w"
    by (auto simp: find_Some_iff)
  have "length (take (length w) s) = length w"
    using start by simp
  then have "length w \<le> length s"
    by simp
  moreover obtain x xs where "w = x # xs"
    using nonempty by (cases w) auto
  ultimately have "length s - length w < length s"
    by simp
  then show "((ws, drop (length w) s), (ws, s)) \<in> measure (\<lambda>(ws, s). length s)"
    by simp
qed

definition trimStart :: "string \<Rightarrow> string" where
  "trimStart s = strip whiteSpace s"

definition trimEnd :: "string \<Rightarrow> string" where
  "trimEnd s = rev (strip (map rev whiteSpace) (rev s))"

definition trim :: "string \<Rightarrow> string" where
  "trim s = trimEnd (trimStart s)"

text \<open>
  \<^verbatim>\<open>String.prototype.toLowerCase\<close> is the lower-casing of Unicode, whose mapping tables
  belong to the platform and not to the repository. The functions of the page that call
  it take it as their first argument, \<open>toLowerCase\<close>, and what is proved of them holds
  whatever function it is.

  On a string of ASCII characters \<^verbatim>\<open>toLowerCase\<close> maps the letters A to Z to a to z and
  keeps the rest; \<open>asciiLowerCase\<close> does this to the bytes below 128 of any string. The
  concrete inputs further down are ASCII and use it for \<open>toLowerCase\<close>.
\<close>

definition lowerChar :: "char \<Rightarrow> char" where
  "lowerChar ch =
     (case map_of (zip ''ABCDEFGHIJKLMNOPQRSTUVWXYZ'' ''abcdefghijklmnopqrstuvwxyz'') ch of
        None \<Rightarrow> ch
      | Some l \<Rightarrow> l)"

definition asciiLowerCase :: "string \<Rightarrow> string" where
  "asciiLowerCase s = map lowerChar s"

text \<open>\<^verbatim>\<open>Array.prototype.join\<close>.\<close>

fun join :: "string \<Rightarrow> string list \<Rightarrow> string" where
  "join sep [] = []"
| "join sep [x] = x"
| "join sep (x # y # ys) = x @ sep @ join sep (y # ys)"

subsection \<open>Types\<close>

text \<open>
  \<^verbatim>\<open>FormState\<close> is the return type of \<^verbatim>\<open>defaultFormState\<close>. Its fields carry the prefix
  \<open>f_\<close> here, since \<^verbatim>\<open>username\<close>, \<^verbatim>\<open>email\<close> and \<^verbatim>\<open>avatar\<close> are fields of the user too.
\<close>

record FormState =
  f_username :: string
  f_email :: string
  f_avatar :: string
  f_password :: string
  f_passwordConfirmation :: string

definition defaultFormState :: "user option \<Rightarrow> FormState" where
  "defaultFormState u =
     \<lparr>f_username = (case u of None \<Rightarrow> [] | Some x \<Rightarrow> username x),
      f_email = (case u of None \<Rightarrow> [] | Some x \<Rightarrow> email x),
      f_avatar = (case u of None \<Rightarrow> [] | Some x \<Rightarrow> (case avatar x of None \<Rightarrow> [] | Some a \<Rightarrow> a)),
      f_password = [],
      f_passwordConfirmation = []\<rparr>"

text \<open>
  \<^verbatim>\<open>FieldErrorMap\<close>: the own properties of the object, from property name to message.
\<close>

type_synonym FieldErrorMap = "string \<Rightarrow> string option"

text \<open>
  Modelled from the spec: \<^verbatim>\<open>UpdateCurrentUserRequest\<close> is imported from \<^verbatim>\<open>../types\<close>,
  which is not among the sources. The spec lists its optional fields: \<^verbatim>\<open>username\<close>,
  \<^verbatim>\<open>email\<close>, \<^verbatim>\<open>avatar\<close> (a string, or an explicit null to clear it), \<^verbatim>\<open>password\<close> and
  \<^verbatim>\<open>password_confirmation\<close>. \<open>None\<close> is a key that is not set; for the avatar,
  \<open>Some None\<close> is the key set to null.
\<close>

record UpdateCurrentUserRequest =
  req_username :: "string option"
  req_email :: "string option"
  req_avatar :: "string option option"
  req_password :: "string option"
  req_password_confirmation :: "string option"

definition emptyRequest :: UpdateCurrentUserRequest where
  "emptyRequest =
     \<lparr>req_username = None, req_email = None, req_avatar = None,
      req_password = None, req_password_confirmation = None\<rparr>"

text \<open>
  What the external service answers. A rejection is either an Axios error that carries a
  response (its status and its body, read as
  \<^verbatim>\<open>{ error?: string; errors?: Record<string, string | string[]> }\<close>), or anything else.
  The entries of \<^verbatim>\<open>errors\<close> are listed in the order \<^verbatim>\<open>Object.entries\<close> yields them.
\<close>

datatype messages = One string | Many "string list"

record error_body =
  body_error :: "string option"
  body_errors :: "(string \<times> messages) list option"

datatype rejection = WithResponse nat error_body | WithoutResponse

datatype response = Resolved user | Rejected rejection

datatype api_call = CallGetCurrentUser | CallUpdateCurrentUser UpdateCurrentUserRequest

text \<open>
  The state of one mounted page: the React state cells, the ref
  \<^verbatim>\<open>hasInitializedRef.current\<close>, the effect's variable \<^verbatim>\<open>isMounted\<close>, and the page's view of
  its collaborators: the cell of the user cache (\<open>cell\<close>), whether the page's listener is in
  the cache's listener set (\<open>subscribed\<close>), the calls made on \<^verbatim>\<open>authAPI\<close> and the paths
  passed to \<^verbatim>\<open>navigate\<close>.

  The page's listener sets React state and makes no call on the cache. The other
  listeners of the application are not part of the page; they are taken to make no cache
  call either, so that a \<^verbatim>\<open>setCurrentUser\<close> or \<^verbatim>\<open>clear\<close> made by the page leaves the new
  value in the cell and invokes the page's listener once with it (lemma \<open>quiet_set\<close>).
\<close>

record page =
  currentUser :: "user option"
  formState :: FormState
  isLoading :: bool
  isSubmitting :: bool
  fieldErrors :: FieldErrorMap
  successMessage :: string
  loadError :: string
  hasInitialized :: bool
  isMounted :: bool
  cell :: "user option"
  subscribed :: bool
  api_calls :: "api_call list"
  navigated :: "string list"

definition first_render :: "user option \<Rightarrow> page" where
  "first_render cached =
     \<lparr>currentUser = cached,
      formState = defaultFormState cached,
      isLoading = (cached = None),
      isSubmitting = False,
      fieldErrors = Map.empty,
      successMessage = [],
      loadError = [],
      hasInitialized = (cached \<noteq> None),
      isMounted = False,
      cell = cached,
      subscribed = False,
      api_calls = [],
      navigated = []\<rparr>"

subsection \<open>The subscription and the initial fetch\<close>

text \<open>The callback handed to \<^verbatim>\<open>userCache.subscribe\<close>.\<close>

definition cacheListener :: "user option \<Rightarrow> page \<Rightarrow> page" where
  "cacheListener nextUser p =
     (if \<not> isMounted p then p
      else
        let p1 = p\<lparr>currentUser := nextUser\<rparr>;
            p2 = (if nextUser \<noteq> None then p1\<lparr>loadError := [], isLoading := False\<rparr> else p1);
            p3 = (if nextUser \<noteq> None \<and> \<not> hasInitialized p2
                  then p2\<lparr>formState := defaultFormState nextUser, hasInitialized := True\<rparr>
                  else p2)
        in if nextUser = None
           then p3\<lparr>hasInitialized := False, isLoading := False, formState := defaultFormState None\<rparr>
           else p3)"

definition notify :: "page \<Rightarrow> page" where
  "notify p = (if subscribed p then cacheListener (cell p) p else p)"

definition userCache_setCurrentUser :: "user option \<Rightarrow> page \<Rightarrow> page" where
  "userCache_setCurrentUser u p = notify (p\<lparr>cell := u\<rparr>)"

definition userCache_clear :: "page \<Rightarrow> page" where
  "userCache_clear p = notify (p\<lparr>cell := None\<rparr>)"

definition userCache_subscribe :: "page \<Rightarrow> page" where
  "userCache_subscribe p = cacheListener (cell p) (p\<lparr>subscribed := True\<rparr>)"

text \<open>
  \<^verbatim>\<open>fetchUser\<close> up to its \<^verbatim>\<open>await\<close>, and from the answer on. Other events may come in
  between, so the second half takes the page as it is when the answer arrives.
\<close>

definition fetchUser_begin :: "page \<Rightarrow> page" where
  "fetchUser_begin p =
     p\<lparr>isLoading := True, loadError := [], api_calls := api_calls p @ [CallGetCurrentUser]\<rparr>"

definition loadFailed :: string where
  "loadFailed = ''Failed to load account details.''"

definition fetchUser_settle :: "response \<Rightarrow> page \<Rightarrow> page" where
  "fetchUser_settle r p =
     (case r of
        Resolved u \<Rightarrow> (if isMounted p then userCache_setCurrentUser (Some u) p else p)
      | Rejected e \<Rightarrow> (if \<not> isMounted p then p else p\<lparr>loadError := loadFailed, isLoading := False\<rparr>))"

text \<open>The effect and its cleanup.\<close>

definition mount :: "page \<Rightarrow> page" where
  "mount p =
     (let p1 = userCache_subscribe (p\<lparr>isMounted := True\<rparr>)
      in if \<not> hasInitialized p1 then fetchUser_begin p1 else p1)"

definition unmount :: "page \<Rightarrow> page" where
  "unmount p = p\<lparr>isMounted := False, subscribed := False\<rparr>"

subsection \<open>Editing\<close>

datatype field = Username | Email | Avatar | Password | PasswordConfirmation

fun handleFieldChange :: "field \<Rightarrow> string \<Rightarrow> page \<Rightarrow> page" where
  "handleFieldChange Username v p = p\<lparr>formState := (formState p)\<lparr>f_username := v\<rparr>\<rparr>"
| "handleFieldChange Email v p = p\<lparr>formState := (formState p)\<lparr>f_email := v\<rparr>\<rparr>"
| "handleFieldChange Avatar v p = p\<lparr>formState := (formState p)\<lparr>f_avatar := v\<rparr>\<rparr>"
| "handleFieldChange Password v p = p\<lparr>formState := (formState p)\<lparr>f_password := v\<rparr>\<rparr>"
| "handleFieldChange PasswordConfirmation v p =
     p\<lparr>formState := (formState p)\<lparr>f_passwordConfirmation := v\<rparr>\<rparr>"

definition trimmedAvatar :: "page \<Rightarrow> string" where
  "trimmedAvatar p = trim (f_avatar (formState p))"

text \<open>\<^verbatim>\<open>currentUser.avatar ?? ''\<close>.\<close>

definition avatarOrEmpty :: "user \<Rightarrow> string" where
  "avatarOrEmpty u = (case avatar u of None \<Rightarrow> [] | Some a \<Rightarrow> a)"

definition hasProfileChanges :: "(string \<Rightarrow> string) \<Rightarrow> page \<Rightarrow> bool" where
  "hasProfileChanges toLowerCase p =
     (case currentUser p of
        None \<Rightarrow> False
      | Some u \<Rightarrow>
          trim (f_username (formState p)) \<noteq> username u \<or>
          toLowerCase (trim (f_email (formState p))) \<noteq> toLowerCase (email u) \<or>
          trimmedAvatar p \<noteq> avatarOrEmpty u)"

definition hasPasswordChanges :: "page \<Rightarrow> bool" where
  "hasPasswordChanges p =
     (0 < length (f_password (formState p)) \<or> 0 < length (f_passwordConfirmation (formState p)))"

definition resetPasswordFields :: "page \<Rightarrow> page" where
  "resetPasswordFields p =
     p\<lparr>formState := (formState p)\<lparr>f_password := [], f_passwordConfirmation := []\<rparr>\<rparr>"

subsection \<open>Submitting\<close>

text \<open>
  The change-set, lines 137 to 156 of the page: \<^verbatim>\<open>payload\<close> starts empty and gets a key for
  each field that changed.
\<close>

definition buildPayload ::
  "(string \<Rightarrow> string) \<Rightarrow> user \<Rightarrow> page \<Rightarrow> UpdateCurrentUserRequest" where
  "buildPayload toLowerCase u p =
     (let fs = formState p;
          r0 = emptyRequest;
          r3 = (if hasProfileChanges toLowerCase p then
                  (let r1 = (if trim (f_username fs) \<noteq> [] \<and> trim (f_username fs) \<noteq> username u
                             then r0\<lparr>req_username := Some (trim (f_username fs))\<rparr> else r0);
                       r2 = (if trim (f_email fs) \<noteq> [] \<and>
                                toLowerCase (trim (f_email fs)) \<noteq> toLowerCase (email u)
                             then r1\<lparr>req_email := Some (trim (f_email fs))\<rparr> else r1)
                   in if trimmedAvatar p \<noteq> avatarOrEmpty u
                      then r2\<lparr>req_avatar :=
                              Some (if 0 < length (trimmedAvatar p) then Some (trimmedAvatar p)
                                    else None)\<rparr>
                      else r2)
                else r0)
      in if hasPasswordChanges p
         then r3\<lparr>req_password := Some (f_password fs),
                 req_password_confirmation := Some (f_passwordConfirmation fs)\<rparr>
         else r3)"

text \<open>\<^verbatim>\<open>Object.keys(payload).length === 0\<close>.\<close>

definition noKeys :: "UpdateCurrentUserRequest \<Rightarrow> bool" where
  "noKeys r \<longleftrightarrow>
     req_username r = None \<and> req_email r = None \<and> req_avatar r = None \<and>
     req_password r = None \<and> req_password_confirmation r = None"

definition accountNotLoaded :: string where
  "accountNotLoaded = ''Unable to update profile until your account loads.''"

definition passwordsDoNotMatch :: string where
  "passwordsDoNotMatch = ''Passwords do not match.''"

text \<open>The dash of the message is U+2014, here its three bytes in UTF-8.\<close>

definition nothingToUpdate :: string where
  "nothingToUpdate =
     ''Nothing to update '' @ [CHR 0xE2, CHR 0x80, CHR 0x94] @ '' your settings are already current.''"

definition profileUpdated :: string where
  "profileUpdated = ''Profile updated successfully.''"

definition failedToUpdate :: string where
  "failedToUpdate = ''Failed to update account settings.''"

definition unexpectedError :: string where
  "unexpectedError = ''An unexpected error occurred while saving your settings.''"

text \<open>
  \<^verbatim>\<open>key in formState\<close>. The operator looks along the prototype chain, and \<^verbatim>\<open>formState\<close> is
  a plain object: besides its five own keys, every property name of \<^verbatim>\<open>Object.prototype\<close>
  is in it.
\<close>

definition formStateKeys :: "string list" where
  "formStateKeys = [''username'', ''email'', ''avatar'', ''password'', ''passwordConfirmation'']"

definition objectPrototypeKeys :: "string list" where
  "objectPrototypeKeys =
     [''constructor'', ''hasOwnProperty'', ''isPrototypeOf'', ''propertyIsEnumerable'',
      ''toLocaleString'', ''toString'', ''valueOf'', ''__proto__'',
      ''__defineGetter__'', ''__defineSetter__'', ''__lookupGetter__'', ''__lookupSetter__'']"

definition in_formState :: "string \<Rightarrow> bool" where
  "in_formState key \<longleftrightarrow> key \<in> set formStateKeys \<or> key \<in> set objectPrototypeKeys"

text \<open>
  \<^verbatim>\<open>validationErrors[key] = message\<close>. Assigning a string to \<^verbatim>\<open>__proto__\<close> goes to the
  setter of \<^verbatim>\<open>Object.prototype\<close>, which ignores it; every other key becomes an own
  property.
\<close>

definition assign :: "FieldErrorMap \<Rightarrow> string \<Rightarrow> string \<Rightarrow> FieldErrorMap" where
  "assign ve key message = (if key = ''__proto__'' then ve else ve(key \<mapsto> message))"

text \<open>\<^verbatim>\<open>Array.isArray(value) ? value.join(' ') : value\<close>.\<close>

fun messageOf :: "messages \<Rightarrow> string" where
  "messageOf (One m) = m"
| "messageOf (Many ms) = join '' '' ms"

text \<open>The loop over \<^verbatim>\<open>Object.entries(data.errors)\<close>.\<close>

fun mapErrors :: "(string \<times> messages) list \<Rightarrow> FieldErrorMap \<Rightarrow> FieldErrorMap" where
  "mapErrors [] ve = ve"
| "mapErrors ((key, v) # es) ve =
     mapErrors es
       (if key = ''password_confirmation'' then ve(''passwordConfirmation'' \<mapsto> messageOf v)
        else if in_formState key then assign ve key (messageOf v)
        else ve(''general'' \<mapsto> messageOf v))"

text \<open>
  \<^verbatim>\<open>validationErrors\<close> as it stands at line 209. An \<^verbatim>\<open>errors\<close> object is truthy even when
  it is empty; an \<^verbatim>\<open>error\<close> string is truthy when it is not empty.
\<close>

definition validationErrors :: "error_body \<Rightarrow> FieldErrorMap" where
  "validationErrors d =
     (case body_errors d of
        Some es \<Rightarrow> mapErrors es Map.empty
      | None \<Rightarrow>
          (case body_error d of
             Some e \<Rightarrow> (if e \<noteq> [] then [''general'' \<mapsto> e] else [''general'' \<mapsto> failedToUpdate])
           | None \<Rightarrow> [''general'' \<mapsto> failedToUpdate]))"

text \<open>
  \<^verbatim>\<open>handleSubmit\<close> up to its \<^verbatim>\<open>await\<close>: either it has returned, or it has sent the
  change-set and waits.
\<close>

datatype submission = Returned page | Awaiting UpdateCurrentUserRequest page

definition handleSubmit_begin :: "(string \<Rightarrow> string) \<Rightarrow> page \<Rightarrow> submission" where
  "handleSubmit_begin toLowerCase p =
     (let p0 = p\<lparr>fieldErrors := Map.empty, successMessage := []\<rparr>
      in case currentUser p of
           None \<Rightarrow> Returned (p0\<lparr>fieldErrors := [''general'' \<mapsto> accountNotLoaded]\<rparr>)
         | Some u \<Rightarrow>
             if hasPasswordChanges p \<and> f_password (formState p) \<noteq> f_passwordConfirmation (formState p)
             then Returned (p0\<lparr>fieldErrors := [''passwordConfirmation'' \<mapsto> passwordsDoNotMatch]\<rparr>)
             else if noKeys (buildPayload toLowerCase u p)
             then Returned (p0\<lparr>successMessage := nothingToUpdate\<rparr>)
             else Awaiting (buildPayload toLowerCase u p)
                    (p0\<lparr>isSubmitting := True,
                        api_calls := api_calls p0 @ [CallUpdateCurrentUser (buildPayload toLowerCase u p)]\<rparr>))"

text \<open>
  The rest of \<^verbatim>\<open>handleSubmit\<close>: the \<^verbatim>\<open>try\<close> after the answer, the \<^verbatim>\<open>catch\<close> and the
  \<^verbatim>\<open>finally\<close>, which also runs after the \<^verbatim>\<open>return\<close> of the 401 branch. The state setters
  are functional updates and \<^verbatim>\<open>key in formState\<close> looks at keys only, so this half depends
  on the page as it is when the answer arrives.
\<close>

definition navigate :: "string \<Rightarrow> page \<Rightarrow> page" where
  "navigate path p = p\<lparr>navigated := navigated p @ [path]\<rparr>"

definition handleSubmit_finally :: "page \<Rightarrow> page" where
  "handleSubmit_finally p = resetPasswordFields (p\<lparr>isSubmitting := False\<rparr>)"

definition handleSubmit_settle :: "response \<Rightarrow> page \<Rightarrow> page" where
  "handleSubmit_settle r p =
     handleSubmit_finally
       (case r of
          Resolved updatedUser \<Rightarrow>
            (let p1 = userCache_setCurrentUser (Some updatedUser) p;
                 p2 = p1\<lparr>formState := (formState p1)
                         \<lparr>f_username := username updatedUser,
                          f_email := email updatedUser,
                          f_avatar := avatarOrEmpty updatedUser,
                          f_password := [],
                          f_passwordConfirmation := []\<rparr>\<rparr>
             in p2\<lparr>successMessage := profileUpdated\<rparr>)
        | Rejected (WithResponse status d) \<Rightarrow>
            (if status = 401 then navigate ''/login'' (userCache_clear p)
             else p\<lparr>fieldErrors := validationErrors d\<rparr>)
        | Rejected WithoutResponse \<Rightarrow> p\<lparr>fieldErrors := [''general'' \<mapsto> unexpectedError]\<rparr>)"

text \<open>A whole submission with nothing else happening while it waits.\<close>

definition handleSubmit ::
  "(string \<Rightarrow> string) \<Rightarrow> (UpdateCurrentUserRequest \<Rightarrow> response) \<Rightarrow> page \<Rightarrow> page" where
  "handleSubmit toLowerCase service p =
     (case handleSubmit_begin toLowerCase p of
        Returned p' \<Rightarrow> p'
      | Awaiting payload p' \<Rightarrow> handleSubmit_settle (service payload) p')"

section \<open>Concrete inputs\<close>

definition alice :: user where
  "alice = \<lparr>uid = 1, username = ''alice'', email = ''alice@example.com'', avatar = None\<rparr>"

definition bob :: user where
  "bob = \<lparr>uid = 2, username = ''bob'', email = ''bob@example.com'', avatar = Some ''b.png''\<rparr>"

definition quiet :: reaction where
  "quiet l h v = []"

definition idle :: cache where
  "idle = \<lparr>cachedUser = None, listeners = [], stack = [], log = []\<rparr>"

definition ready_page :: page where
  "ready_page = mount (first_render (Some alice))"

definition loading_page :: page where
  "loading_page = mount (first_render None)"

definition typo_page :: page where
  "typo_page =
     handleFieldChange PasswordConfirmation ''secreu''
       (handleFieldChange Password ''secret'' ready_page)"

definition renamed_page :: page where
  "renamed_page =
     handleFieldChange PasswordConfirmation ''secret''
       (handleFieldChange Password ''secret''
         (handleFieldChange Username '' alicia '' ready_page))"

definition edited_page :: page where
  "edited_page =
     handleFieldChange Avatar '' a.png''
       (handleFieldChange Email ''Alice@Example.COM '' renamed_page)"

definition no_body :: error_body where
  "no_body = \<lparr>body_error = None, body_errors = None\<rparr>"

definition accepting :: "UpdateCurrentUserRequest \<Rightarrow> response" where
  "accepting payload = Resolved bob"

definition unauthorized :: "UpdateCurrentUserRequest \<Rightarrow> response" where
  "unauthorized payload = Rejected (WithResponse 401 no_body)"

definition offline :: "UpdateCurrentUserRequest \<Rightarrow> response" where
  "offline payload = Rejected WithoutResponse"

definition cleared_page :: page where
  "cleared_page = handleFieldChange Avatar ''  '' (mount (first_render (Some bob)))"

text \<open>
  A user whose stored username ends in a blank, one whose stored email ends in a blank and
  whose stored avatar starts with one, and for each the page as it is seeded from the
  cache, with nothing typed.
\<close>

definition padded :: user where
  "padded = \<lparr>uid = 3, username = ''bob '', email = ''bob@example.com'', avatar = None\<rparr>"

definition padded_page :: page where
  "padded_page = mount (first_render (Some padded))"

definition spaced :: user where
  "spaced =
     \<lparr>uid = 4, username = ''carol'', email = ''carol@example.com '', avatar = Some '' c.png''\<rparr>"

definition spaced_page :: page where
  "spaced_page = mount (first_render (Some spaced))"

definition inherited_key_body :: error_body where
  "inherited_key_body =
     \<lparr>body_error = None, body_errors = Some [(''toString'', One ''is invalid'')]\<rparr>"

text \<open>
  Listener 0 answers the value \<open>Some alice\<close> with \<^verbatim>\<open>setCurrentUser(bob)\<close>; listener 1 only
  listens.
\<close>

definition echo :: reaction where
  "echo l h v = (if l = 0 \<and> v = Some alice then [SetCurrentUser (Some bob)] else [])"

definition two_listeners :: cache where
  "two_listeners =
     \<lparr>cachedUser = None, listeners = [Some 0, Some 1],
      stack = [Script [SetCurrentUser (Some alice)]], log = []\<rparr>"

definition inside_callback :: cache where
  "inside_callback =
     \<lparr>cachedUser = Some alice, listeners = [Some 0, Some 1],
      stack = [], log = [Invoked 0 (Some alice)]\<rparr>"

text \<open>
  Listener 0 answers \<open>Some alice\<close> by calling its unsubscribe closure, twice, and then
  \<^verbatim>\<open>setCurrentUser(bob)\<close>.
\<close>

definition selfish :: reaction where
  "selfish l h v =
     (if l = 0 \<and> v = Some alice then [Unsubscribe 0, Unsubscribe 0, SetCurrentUser (Some bob)]
      else [])"

section \<open>Facts about the listener set\<close>

lemma live_append: "live (xs @ ys) = live xs @ live ys"
  by (induction xs rule: live.induct) simp_all

lemma set_live: "l \<in> set (live ls) \<longleftrightarrow> Some l \<in> set ls"
  by (induction ls rule: live.induct) auto

lemma live_add_listener:
  "live (add_listener l ls) = (if l \<in> set (live ls) then live ls else live ls @ [l])"
  by (simp add: add_listener_def live_append set_live)

lemma in_add_listener: "Some l \<in> set (add_listener l ls)"
  by (simp add: add_listener_def)

section \<open>Subscribing\<close>

text \<open>
  C1. From every cache state and with every set of listeners already registered,
  the call \<^verbatim>\<open>subscribe(listener)\<close> leaves the listener registered and invokes it at once
  with the value the cell holds at that moment: that invocation is the one event the call
  adds to the log, the cell is untouched, and the next thing to run is the listener's own
  body. When that body makes no cache call, the call returns after one more step with
  nothing else logged.
\<close>

theorem subscribe_replays_current_value:
  "Some l \<in> set (listeners (step react (c\<lparr>stack := Script (Subscribe l # as) # rest\<rparr>))) \<and>
   log (step react (c\<lparr>stack := Script (Subscribe l # as) # rest\<rparr>))
     = log c @ [Invoked l (cachedUser c)] \<and>
   cachedUser (step react (c\<lparr>stack := Script (Subscribe l # as) # rest\<rparr>)) = cachedUser c \<and>
   stack (step react (c\<lparr>stack := Script (Subscribe l # as) # rest\<rparr>))
     = Script (react l (log c) (cachedUser c)) # Script as # rest \<and>
   live (listeners (step react (c\<lparr>stack := Script (Subscribe l # as) # rest\<rparr>)))
     = (if l \<in> set (live (listeners c)) then live (listeners c) else live (listeners c) @ [l]) \<and>
   (react l (log c) (cachedUser c) = [] \<longrightarrow>
      steps react 2 (c\<lparr>stack := Script (Subscribe l # as) # rest\<rparr>)
        = c\<lparr>listeners := add_listener l (listeners c),
             stack := Script as # rest,
             log := log c @ [Invoked l (cachedUser c)]\<rparr>)"
  by (simp add: invoke_def live_add_listener in_add_listener numeral_2_eq_2)

theorem subscribe_replays_current_value_witness:
  "steps quiet 2 (idle\<lparr>cachedUser := Some alice, stack := [Script [Subscribe 7]]\<rparr>)
     = \<lparr>cachedUser = Some alice, listeners = [Some 7], stack = [Script []],
        log = [Invoked 7 (Some alice)]\<rparr>"
  using subscribe_replays_current_value
          [where l = 7 and react = quiet and c = "idle\<lparr>cachedUser := Some alice\<rparr>"
             and as = "[]" and rest = "[]"]
  by (simp add: quiet_def idle_def add_listener_def)

section \<open>Facts about the page\<close>

lemma ready_page_eq:
  "ready_page =
     \<lparr>currentUser = Some alice, formState = defaultFormState (Some alice), isLoading = False,
      isSubmitting = False, fieldErrors = Map.empty, successMessage = [], loadError = [],
      hasInitialized = True, isMounted = True, cell = Some alice, subscribed = True,
      api_calls = [], navigated = []\<rparr>"
  by (simp add: ready_page_def mount_def first_render_def userCache_subscribe_def
      cacheListener_def Let_def)

lemma loading_page_eq:
  "loading_page =
     \<lparr>currentUser = None, formState = defaultFormState None, isLoading = True,
      isSubmitting = False, fieldErrors = Map.empty, successMessage = [], loadError = [],
      hasInitialized = False, isMounted = True, cell = None, subscribed = True,
      api_calls = [CallGetCurrentUser], navigated = []\<rparr>"
  by (simp add: loading_page_def mount_def first_render_def userCache_subscribe_def
      cacheListener_def Let_def fetchUser_begin_def)

lemma alice_form:
  "defaultFormState (Some alice) =
     \<lparr>f_username = ''alice'', f_email = ''alice@example.com'', f_avatar = [],
      f_password = [], f_passwordConfirmation = []\<rparr>"
  by (simp add: defaultFormState_def alice_def)

lemma alice_fields:
  "username alice = ''alice''" "email alice = ''alice@example.com''" "avatar alice = None"
  "avatarOrEmpty alice = []"
  by (simp_all add: alice_def avatarOrEmpty_def)

lemma trim_examples:
  "trim [] = []"
  "trim ''alice'' = ''alice''"
  "trim ''alice@example.com'' = ''alice@example.com''"
  "trim '' alicia '' = ''alicia''"
  "trim ''Alice@Example.COM '' = ''Alice@Example.COM''"
  "trim '' a.png'' = ''a.png''"
  by (simp_all add: trim_def trimStart_def trimEnd_def whiteSpace_def)

lemma asciiLowerCase_examples:
  "asciiLowerCase ''Alice@Example.COM'' = ''alice@example.com''"
  "asciiLowerCase ''alice@example.com'' = ''alice@example.com''"
  by (simp_all add: asciiLowerCase_def lowerChar_def)

lemma asciiLowerCase_twice: "asciiLowerCase (asciiLowerCase s) = asciiLowerCase s"
  by (simp add: asciiLowerCase_def lowerChar_def)

lemma renamed_page_begin:
  "handleSubmit_begin asciiLowerCase renamed_page =
     Awaiting
       \<lparr>req_username = Some ''alicia'', req_email = None, req_avatar = None,
        req_password = Some ''secret'', req_password_confirmation = Some ''secret''\<rparr>
       (ready_page
         \<lparr>formState := (defaultFormState (Some alice))
            \<lparr>f_username := '' alicia '', f_password := ''secret'',
             f_passwordConfirmation := ''secret''\<rparr>,
          isSubmitting := True,
          api_calls :=
            [CallUpdateCurrentUser
               \<lparr>req_username = Some ''alicia'', req_email = None, req_avatar = None,
                req_password = Some ''secret'', req_password_confirmation = Some ''secret''\<rparr>]\<rparr>)"
  by (simp add: renamed_page_def ready_page_eq alice_form handleSubmit_begin_def
      hasPasswordChanges_def hasProfileChanges_def buildPayload_def trimmedAvatar_def
      emptyRequest_def noKeys_def trim_examples alice_fields Let_def)

lemma mismatch_has_changes:
  "f_password (formState p) \<noteq> f_passwordConfirmation (formState p) \<Longrightarrow> hasPasswordChanges p"
  by (auto simp: hasPasswordChanges_def)

lemma noKeys_emptyRequest: "noKeys emptyRequest"
  by (simp add: noKeys_def emptyRequest_def)

lemma noKeys_no_password: "noKeys (buildPayload toLowerCase u p) \<Longrightarrow> \<not> hasPasswordChanges p"
  by (auto simp: noKeys_def buildPayload_def Let_def split: if_splits)

lemma cell_cacheListener: "cell (cacheListener v p) = cell p"
  by (simp add: cacheListener_def Let_def)

lemma navigated_cacheListener: "navigated (cacheListener v p) = navigated p"
  by (simp add: cacheListener_def Let_def)

lemma fieldErrors_cacheListener: "fieldErrors (cacheListener v p) = fieldErrors p"
  by (simp add: cacheListener_def Let_def)

lemma cell_notify: "cell (notify p) = cell p"
  by (simp add: notify_def cell_cacheListener)

lemma navigated_notify: "navigated (notify p) = navigated p"
  by (simp add: notify_def navigated_cacheListener)

lemma fieldErrors_notify: "fieldErrors (notify p) = fieldErrors p"
  by (simp add: notify_def fieldErrors_cacheListener)

lemma finally_fields:
  "cell (handleSubmit_finally p) = cell p"
  "navigated (handleSubmit_finally p) = navigated p"
  "fieldErrors (handleSubmit_finally p) = fieldErrors p"
  "f_password (formState (handleSubmit_finally p)) = []"
  "f_passwordConfirmation (formState (handleSubmit_finally p)) = []"
  by (simp_all add: handleSubmit_finally_def resetPasswordFields_def)

lemma api_calls_settle: "api_calls (handleSubmit_settle r p) = api_calls p"
  by (simp add: handleSubmit_settle_def handleSubmit_finally_def resetPasswordFields_def
      userCache_setCurrentUser_def userCache_clear_def notify_def cacheListener_def
      navigate_def Let_def split: response.splits rejection.splits)

lemma begin_Awaiting:
  assumes "handleSubmit_begin toLowerCase p = Awaiting payload p'"
  shows "cell p' = cell p" and "navigated p' = navigated p" and "fieldErrors p' = Map.empty"
    and "api_calls p' = api_calls p @ [CallUpdateCurrentUser payload]"
    and "\<exists>u. currentUser p = Some u \<and> payload = buildPayload toLowerCase u p"
    and "f_password (formState p) = f_passwordConfirmation (formState p)"
  using assms
  by (auto simp: handleSubmit_begin_def Let_def dest: mismatch_has_changes
      split: option.splits if_splits)

lemma begin_Returned:
  assumes "handleSubmit_begin toLowerCase p = Returned p'"
  shows "formState p' = formState p" and "api_calls p' = api_calls p" and "cell p' = cell p"
  using assms
  by (auto simp: handleSubmit_begin_def Let_def split: option.splits if_splits)

lemma nothingToUpdate_not_empty: "nothingToUpdate \<noteq> []"
  by (simp add: nothingToUpdate_def)

lemma begin_no_op:
  assumes "handleSubmit_begin toLowerCase p = Returned p'" and "successMessage p' = nothingToUpdate"
  shows "\<not> hasPasswordChanges p"
  using assms nothingToUpdate_not_empty
  by (auto simp: handleSubmit_begin_def Let_def dest: noKeys_no_password
      split: option.splits if_splits)

section \<open>Submission: local checks\<close>

text \<open>
  C7. With a user loaded, a form whose password and confirmation differ is turned down
  before anything is sent: the only changes to the page are the error
  \<^verbatim>\<open>Passwords do not match.\<close> on the confirmation field and the cleared success message.
  No call is made on the service, and \<^verbatim>\<open>isSubmitting\<close> and \<^verbatim>\<open>isLoading\<close>, the two flags
  that disable the form, are as they were, so a ready page is still ready.
\<close>

theorem mismatch_is_rejected_locally:
  assumes "currentUser p = Some u"
    and "f_password (formState p) \<noteq> f_passwordConfirmation (formState p)"
  shows "handleSubmit toLowerCase service p
           = p\<lparr>fieldErrors := [''passwordConfirmation'' \<mapsto> passwordsDoNotMatch],
                successMessage := []\<rparr> \<and>
         api_calls (handleSubmit toLowerCase service p) = api_calls p \<and>
         isSubmitting (handleSubmit toLowerCase service p) = isSubmitting p \<and>
         isLoading (handleSubmit toLowerCase service p) = isLoading p"
  using assms mismatch_has_changes [of p]
  by (simp add: handleSubmit_def handleSubmit_begin_def)

theorem mismatch_is_rejected_locally_witness:
  "fieldErrors (handleSubmit asciiLowerCase accepting typo_page) ''passwordConfirmation''
     = Some ''Passwords do not match.'' \<and>
   api_calls (handleSubmit asciiLowerCase accepting typo_page) = [] \<and>
   isSubmitting (handleSubmit asciiLowerCase accepting typo_page) = False \<and>
   isLoading (handleSubmit asciiLowerCase accepting typo_page) = False"
  using mismatch_is_rejected_locally
          [where p = typo_page and u = alice and toLowerCase = asciiLowerCase
             and service = accepting]
  by (simp add: typo_page_def ready_page_eq alice_form passwordsDoNotMatch_def)

text \<open>
  C6, as the code has it. With a user loaded, a form whose trimmed username equals the
  user's username as stored, whose trimmed email equals the user's email once both are in
  lower case, whose trimmed avatar equals the user's avatar as stored (none counting as
  the empty string), and whose password fields are both empty, submits nothing: the page
  shows the message \<^verbatim>\<open>Nothing to update\<close> and no call is made on the service. Only the
  form's side of a comparison is trimmed.
\<close>

theorem unchanged_form_is_a_no_op:
  assumes "currentUser p = Some u"
    and "trim (f_username (formState p)) = username u"
    and "toLowerCase (trim (f_email (formState p))) = toLowerCase (email u)"
    and "trim (f_avatar (formState p)) = avatarOrEmpty u"
    and "f_password (formState p) = []"
    and "f_passwordConfirmation (formState p) = []"
  shows "handleSubmit toLowerCase service p
           = p\<lparr>fieldErrors := Map.empty, successMessage := nothingToUpdate\<rparr> \<and>
         api_calls (handleSubmit toLowerCase service p) = api_calls p"
proof -
  have unchanged: "\<not> hasProfileChanges toLowerCase p"
    using assms by (simp add: hasProfileChanges_def trimmedAvatar_def)
  have no_password: "\<not> hasPasswordChanges p"
    using assms by (simp add: hasPasswordChanges_def)
  have "buildPayload toLowerCase u p = emptyRequest"
    using unchanged no_password by (simp add: buildPayload_def)
  then show ?thesis
    using assms(1) no_password
    by (simp add: handleSubmit_def handleSubmit_begin_def noKeys_emptyRequest)
qed

theorem unchanged_form_is_a_no_op_witness:
  "successMessage (handleSubmit asciiLowerCase accepting ready_page) = nothingToUpdate \<and>
   api_calls (handleSubmit asciiLowerCase accepting ready_page) = []"
  using unchanged_form_is_a_no_op
          [where p = ready_page and u = alice and toLowerCase = asciiLowerCase
             and service = accepting]
  by (simp add: ready_page_eq alice_form trim_examples alice_fields)

text \<open>
  The page of a user whose stored username is \<^verbatim>\<open>'bob '\<close>, submitted as seeded: every
  field of the form is the user's, the password fields are empty, and as trimmed strings
  the two usernames are equal. The trimmed \<^verbatim>\<open>'bob'\<close> is not the stored \<^verbatim>\<open>'bob '\<close>, so
  the username is sent to the service.
\<close>

theorem untouched_padded_form_is_sent_counterexample:
  "formState padded_page = defaultFormState (Some padded) \<and>
   f_username (formState padded_page) = username padded \<and>
   trim (f_username (formState padded_page)) = trim (username padded) \<and>
   f_email (formState padded_page) = email padded \<and>
   f_avatar (formState padded_page) = avatarOrEmpty padded \<and>
   f_password (formState padded_page) = [] \<and>
   f_passwordConfirmation (formState padded_page) = [] \<and>
   api_calls (handleSubmit asciiLowerCase accepting padded_page)
     = [CallUpdateCurrentUser
          \<lparr>req_username = Some ''bob'', req_email = None, req_avatar = None,
           req_password = None, req_password_confirmation = None\<rparr>] \<and>
   successMessage (handleSubmit asciiLowerCase accepting padded_page) \<noteq> nothingToUpdate"
proof -
  have page: "padded_page =
     \<lparr>currentUser = Some padded, formState = defaultFormState (Some padded), isLoading = False,
      isSubmitting = False, fieldErrors = Map.empty, successMessage = [], loadError = [],
      hasInitialized = True, isMounted = True, cell = Some padded, subscribed = True,
      api_calls = [], navigated = []\<rparr>"
    by (simp add: padded_page_def mount_def first_render_def userCache_subscribe_def
        cacheListener_def Let_def)
  have form: "defaultFormState (Some padded) =
     \<lparr>f_username = ''bob '', f_email = ''bob@example.com'', f_avatar = [],
      f_password = [], f_passwordConfirmation = []\<rparr>"
    by (simp add: defaultFormState_def padded_def)
  have stored: "username padded = ''bob ''" "email padded = ''bob@example.com''"
    "avatarOrEmpty padded = []"
    by (simp_all add: padded_def avatarOrEmpty_def)
  have trims: "trim ''bob '' = ''bob''" "trim ''bob@example.com'' = ''bob@example.com''"
    "trim [] = []"
    by (simp_all add: trim_def trimStart_def trimEnd_def whiteSpace_def)
  have begun: "handleSubmit_begin asciiLowerCase padded_page =
     Awaiting
       \<lparr>req_username = Some ''bob'', req_email = None, req_avatar = None,
        req_password = None, req_password_confirmation = None\<rparr>
       (padded_page
         \<lparr>isSubmitting := True,
          api_calls :=
            [CallUpdateCurrentUser
               \<lparr>req_username = Some ''bob'', req_email = None, req_avatar = None,
                req_password = None, req_password_confirmation = None\<rparr>]\<rparr>)"
    by (simp add: page form stored trims handleSubmit_begin_def hasPasswordChanges_def
        hasProfileChanges_def buildPayload_def trimmedAvatar_def emptyRequest_def noKeys_def
        Let_def)
  have sent: "api_calls (handleSubmit asciiLowerCase accepting padded_page)
     = [CallUpdateCurrentUser
          \<lparr>req_username = Some ''bob'', req_email = None, req_avatar = None,
           req_password = None, req_password_confirmation = None\<rparr>]"
    by (simp add: handleSubmit_def begun api_calls_settle)
  have told: "successMessage (handleSubmit asciiLowerCase accepting padded_page) = profileUpdated"
    by (simp add: handleSubmit_def begun accepting_def handleSubmit_settle_def
        handleSubmit_finally_def resetPasswordFields_def Let_def)
  have differ: "profileUpdated \<noteq> nothingToUpdate"
    by (simp add: profileUpdated_def nothingToUpdate_def)
  show ?thesis
    using sent told differ by (simp add: page form stored trims)
qed

section \<open>Submission: the answer of the service\<close>

text \<open>
  C4. A submission that reaches the service leaves the cache holding the user the service
  returned when it succeeds, and leaves the cache as it was when it fails with a response
  whose status is not 401 or fails without a response. This holds for the page as it is
  when the answer arrives, and sending the request does not touch the cache either.
\<close>

theorem cache_after_submission:
  "cell (handleSubmit_settle (Resolved v) p) = Some v \<and>
   (status \<noteq> 401 \<longrightarrow>
      cell (handleSubmit_settle (Rejected (WithResponse status d)) p) = cell p) \<and>
   cell (handleSubmit_settle (Rejected WithoutResponse) p) = cell p \<and>
   (handleSubmit_begin toLowerCase q = Awaiting payload q' \<longrightarrow>
      cell q' = cell q \<and>
      (service payload = Resolved v \<longrightarrow> cell (handleSubmit toLowerCase service q) = Some v) \<and>
      (service payload = Rejected (WithResponse status d) \<and> status \<noteq> 401 \<longrightarrow>
         cell (handleSubmit toLowerCase service q) = cell q) \<and>
      (service payload = Rejected WithoutResponse \<longrightarrow> cell (handleSubmit toLowerCase service q) = cell q))"
proof -
  have ok: "cell (handleSubmit_settle (Resolved v) p) = Some v" for p
    by (simp add: handleSubmit_settle_def finally_fields userCache_setCurrentUser_def
        cell_notify Let_def)
  have other: "status \<noteq> 401 \<Longrightarrow>
      cell (handleSubmit_settle (Rejected (WithResponse status d)) p) = cell p" for p
    by (simp add: handleSubmit_settle_def finally_fields)
  have none: "cell (handleSubmit_settle (Rejected WithoutResponse) p) = cell p" for p
    by (simp add: handleSubmit_settle_def finally_fields)
  show ?thesis
    using ok other none
    by (auto simp: handleSubmit_def dest: begin_Awaiting(1))
qed

theorem cache_after_submission_witness:
  "cell (handleSubmit asciiLowerCase accepting renamed_page) = Some bob \<and>
   cell (handleSubmit asciiLowerCase offline renamed_page) = Some alice \<and>
   cell (handleSubmit_settle (Rejected (WithResponse 422 no_body)) renamed_page) = Some alice"
  using cache_after_submission
          [where q = renamed_page and toLowerCase = asciiLowerCase and service = accepting
             and v = bob and p = renamed_page
             and status = 422 and d = no_body]
        cache_after_submission
          [where q = renamed_page and toLowerCase = asciiLowerCase and service = offline]
  by (simp add: renamed_page_begin accepting_def offline_def)
    (simp add: renamed_page_def ready_page_eq)

text \<open>
  C5, as the code has it. Whatever the service answers, and whatever the form holds when
  the answer arrives, both password fields are empty once the submission has settled; the
  same holds when the change-set is empty, for then both fields were empty already. A
  submission that returns before the request (no user loaded, or password and
  confirmation differ) leaves the form, the password fields too, as typed.
\<close>

theorem password_fields_after_submission:
  "f_password (formState (handleSubmit_settle r p)) = [] \<and>
   f_passwordConfirmation (formState (handleSubmit_settle r p)) = [] \<and>
   (handleSubmit_begin toLowerCase q = Awaiting payload q' \<longrightarrow>
      f_password (formState (handleSubmit toLowerCase service q)) = [] \<and>
      f_passwordConfirmation (formState (handleSubmit toLowerCase service q)) = []) \<and>
   (handleSubmit_begin toLowerCase q = Returned q' \<and> successMessage q' = nothingToUpdate \<longrightarrow>
      f_password (formState (handleSubmit toLowerCase service q)) = [] \<and>
      f_passwordConfirmation (formState (handleSubmit toLowerCase service q)) = []) \<and>
   (handleSubmit_begin toLowerCase q = Returned q' \<longrightarrow> formState (handleSubmit toLowerCase service q) = formState q)"
proof -
  have settled: "f_password (formState (handleSubmit_settle r p)) = [] \<and>
      f_passwordConfirmation (formState (handleSubmit_settle r p)) = []" for r p
    by (simp add: handleSubmit_settle_def finally_fields)
  have no_op: "f_password (formState q) = [] \<and> f_passwordConfirmation (formState q) = []"
    if "handleSubmit_begin toLowerCase q = Returned q'" and "successMessage q' = nothingToUpdate"
    using begin_no_op [OF that] by (simp add: hasPasswordChanges_def)
  show ?thesis
    using settled no_op begin_Returned(1) [where p = q and p' = q']
    by (auto simp: handleSubmit_def)
qed

theorem password_fields_after_submission_witness:
  "f_password (formState (handleSubmit asciiLowerCase unauthorized renamed_page)) = [] \<and>
   f_passwordConfirmation (formState (handleSubmit asciiLowerCase unauthorized renamed_page)) = [] \<and>
   f_password (formState (handleSubmit_settle (Resolved bob) typo_page)) = []"
  using password_fields_after_submission
          [where q = renamed_page and toLowerCase = asciiLowerCase and service = unauthorized
             and r = "Resolved bob"
             and p = typo_page]
  by (simp add: renamed_page_begin)

theorem mismatch_keeps_passwords_counterexample:
  "f_password (formState (handleSubmit asciiLowerCase offline typo_page)) = ''secret'' \<and>
   f_passwordConfirmation (formState (handleSubmit asciiLowerCase offline typo_page)) = ''secreu'' \<and>
   api_calls (handleSubmit asciiLowerCase offline typo_page) = []"
  by (simp add: typo_page_def ready_page_eq handleSubmit_def handleSubmit_begin_def
      hasPasswordChanges_def)

text \<open>
  C3, as the code has it. A submission answered with status 401 clears the cache, passes
  \<^verbatim>\<open>/login\<close> to \<^verbatim>\<open>navigate\<close> once and leaves the field errors alone, whatever the body of
  the response; over a whole submission the field errors are the empty map that
  \<^verbatim>\<open>handleSubmit\<close> set at its start. The initial fetch makes no difference between
  failures: when it is rejected, with 401 or otherwise, the cache is as it was, nothing is
  passed to \<^verbatim>\<open>navigate\<close>, and a mounted page shows \<^verbatim>\<open>Failed to load account details.\<close>
\<close>

theorem unauthorized_answer:
  "cell (handleSubmit_settle (Rejected (WithResponse 401 d)) p) = None \<and>
   navigated (handleSubmit_settle (Rejected (WithResponse 401 d)) p) = navigated p @ [''/login''] \<and>
   fieldErrors (handleSubmit_settle (Rejected (WithResponse 401 d)) p) = fieldErrors p \<and>
   (handleSubmit_begin toLowerCase q = Awaiting payload q' \<and> service payload = Rejected (WithResponse 401 d) \<longrightarrow>
      cell (handleSubmit toLowerCase service q) = None \<and>
      navigated (handleSubmit toLowerCase service q) = navigated q @ [''/login''] \<and>
      fieldErrors (handleSubmit toLowerCase service q) = Map.empty) \<and>
   cell (fetchUser_settle (Rejected e) p) = cell p \<and>
   navigated (fetchUser_settle (Rejected e) p) = navigated p \<and>
   (isMounted p \<longrightarrow> loadError (fetchUser_settle (Rejected e) p) = loadFailed)"
proof -
  have settled: "cell (handleSubmit_settle (Rejected (WithResponse 401 d)) p) = None \<and>
      navigated (handleSubmit_settle (Rejected (WithResponse 401 d)) p) = navigated p @ [''/login''] \<and>
      fieldErrors (handleSubmit_settle (Rejected (WithResponse 401 d)) p) = fieldErrors p" for p
    by (simp add: handleSubmit_settle_def finally_fields navigate_def userCache_clear_def
        cell_notify navigated_notify fieldErrors_notify)
  have fetch: "cell (fetchUser_settle (Rejected e) p) = cell p \<and>
      navigated (fetchUser_settle (Rejected e) p) = navigated p \<and>
      (isMounted p \<longrightarrow> loadError (fetchUser_settle (Rejected e) p) = loadFailed)"
    by (simp add: fetchUser_settle_def)
  show ?thesis
    using settled fetch
    by (auto simp: handleSubmit_def dest: begin_Awaiting(1,2,3))
qed

theorem unauthorized_answer_witness:
  "cell (handleSubmit asciiLowerCase unauthorized renamed_page) = None \<and>
   navigated (handleSubmit asciiLowerCase unauthorized renamed_page) = [''/login''] \<and>
   fieldErrors (handleSubmit asciiLowerCase unauthorized renamed_page) = Map.empty \<and>
   loadError (fetchUser_settle (Rejected WithoutResponse) loading_page) = loadFailed"
  using unauthorized_answer
          [where q = renamed_page and toLowerCase = asciiLowerCase and service = unauthorized
             and d = no_body
             and p = loading_page and e = WithoutResponse]
  by (simp add: renamed_page_begin unauthorized_def)
    (simp add: renamed_page_def ready_page_eq loading_page_eq)

theorem unauthorized_fetch_counterexample:
  "cell (fetchUser_settle (Rejected (WithResponse 401 no_body)) loading_page) = None \<and>
   navigated (fetchUser_settle (Rejected (WithResponse 401 no_body)) loading_page) = [] \<and>
   navigated (fetchUser_settle (Rejected (WithResponse 401 no_body)) loading_page) \<noteq> [''/login'']"
  by (simp add: loading_page_eq fetchUser_settle_def)

section \<open>The change-set\<close>

text \<open>
  C8, as the code has it. With a user loaded, the change-set holds: the trimmed username
  when it is not empty and differs from the user's username as stored; the trimmed email
  when it is not empty and, put in lower case, differs from the user's stored email put in
  lower case; the avatar when the trimmed field differs from the user's avatar as stored
  (none counting as the empty string), as the trimmed string, or as null when that is
  empty; and password and confirmation, both, exactly when one of the two fields is not
  empty. Only the form's side of a comparison is trimmed. The comparison of the emails
  ignores case: when \<^verbatim>\<open>toLowerCase\<close> does not tell a string from the same string with
  its ASCII letters in lower case, a trimmed email that differs from the stored one in the
  case of ASCII letters only is not in the change-set. When the change-set is sent, it is
  the one request recorded, and the password it carries equals the confirmation.
\<close>

theorem change_set:
  assumes "currentUser p = Some u"
  shows "req_username (buildPayload toLowerCase u p)
           = (if trim (f_username (formState p)) \<noteq> [] \<and> trim (f_username (formState p)) \<noteq> username u
              then Some (trim (f_username (formState p))) else None) \<and>
         req_email (buildPayload toLowerCase u p)
           = (if trim (f_email (formState p)) \<noteq> [] \<and>
                 toLowerCase (trim (f_email (formState p))) \<noteq> toLowerCase (email u)
              then Some (trim (f_email (formState p))) else None) \<and>
         req_avatar (buildPayload toLowerCase u p)
           = (if trim (f_avatar (formState p)) = avatarOrEmpty u then None
              else if trim (f_avatar (formState p)) = [] then Some None
              else Some (Some (trim (f_avatar (formState p))))) \<and>
         req_password (buildPayload toLowerCase u p)
           = (if f_password (formState p) \<noteq> [] \<or> f_passwordConfirmation (formState p) \<noteq> []
              then Some (f_password (formState p)) else None) \<and>
         req_password_confirmation (buildPayload toLowerCase u p)
           = (if f_password (formState p) \<noteq> [] \<or> f_passwordConfirmation (formState p) \<noteq> []
              then Some (f_passwordConfirmation (formState p)) else None) \<and>
         ((\<forall>s. toLowerCase (asciiLowerCase s) = toLowerCase s) \<and>
          asciiLowerCase (trim (f_email (formState p))) = asciiLowerCase (email u) \<longrightarrow>
            req_email (buildPayload toLowerCase u p) = None) \<and>
         (handleSubmit_begin toLowerCase p = Awaiting payload p' \<longrightarrow>
            payload = buildPayload toLowerCase u p \<and>
            api_calls p' = api_calls p @ [CallUpdateCurrentUser payload] \<and>
            f_password (formState p) = f_passwordConfirmation (formState p))"
proof -
  have name: "req_username (buildPayload toLowerCase u p)
           = (if trim (f_username (formState p)) \<noteq> [] \<and> trim (f_username (formState p)) \<noteq> username u
              then Some (trim (f_username (formState p))) else None)"
    using assms
    by (simp add: buildPayload_def hasProfileChanges_def emptyRequest_def Let_def)
  have mail: "req_email (buildPayload toLowerCase u p)
           = (if trim (f_email (formState p)) \<noteq> [] \<and>
                 toLowerCase (trim (f_email (formState p))) \<noteq> toLowerCase (email u)
              then Some (trim (f_email (formState p))) else None)"
    using assms
    by (simp add: buildPayload_def hasProfileChanges_def emptyRequest_def Let_def)
  have picture: "req_avatar (buildPayload toLowerCase u p)
           = (if trim (f_avatar (formState p)) = avatarOrEmpty u then None
              else if trim (f_avatar (formState p)) = [] then Some None
              else Some (Some (trim (f_avatar (formState p)))))"
    using assms
    by (simp add: buildPayload_def hasProfileChanges_def emptyRequest_def trimmedAvatar_def
        Let_def)
  have secret: "req_password (buildPayload toLowerCase u p)
           = (if f_password (formState p) \<noteq> [] \<or> f_passwordConfirmation (formState p) \<noteq> []
              then Some (f_password (formState p)) else None)"
    by (simp add: buildPayload_def hasPasswordChanges_def emptyRequest_def Let_def)
  have again: "req_password_confirmation (buildPayload toLowerCase u p)
           = (if f_password (formState p) \<noteq> [] \<or> f_passwordConfirmation (formState p) \<noteq> []
              then Some (f_passwordConfirmation (formState p)) else None)"
    by (simp add: buildPayload_def hasPasswordChanges_def emptyRequest_def Let_def)
  have sent: "payload = buildPayload toLowerCase u p \<and>
      api_calls p' = api_calls p @ [CallUpdateCurrentUser payload] \<and>
      f_password (formState p) = f_passwordConfirmation (formState p)"
    if "handleSubmit_begin toLowerCase p = Awaiting payload p'"
    using begin_Awaiting(4,5,6) [OF that] assms by simp
  have same_letters: "req_email (buildPayload toLowerCase u p) = None"
    if fold: "\<forall>s. toLowerCase (asciiLowerCase s) = toLowerCase s"
      and same: "asciiLowerCase (trim (f_email (formState p))) = asciiLowerCase (email u)"
  proof -
    have "toLowerCase (trim (f_email (formState p)))
            = toLowerCase (asciiLowerCase (trim (f_email (formState p))))"
      using fold by simp
    also have "\<dots> = toLowerCase (asciiLowerCase (email u))"
      using same by simp
    also have "\<dots> = toLowerCase (email u)"
      using fold by simp
    finally show ?thesis
      using mail by simp
  qed
  show ?thesis
    using name mail picture secret again sent same_letters by blast
qed

theorem change_set_witness:
  "buildPayload asciiLowerCase alice edited_page
     = \<lparr>req_username = Some ''alicia'', req_email = None, req_avatar = Some (Some ''a.png''),
        req_password = Some ''secret'', req_password_confirmation = Some ''secret''\<rparr> \<and>
   req_avatar (buildPayload asciiLowerCase bob cleared_page) = Some None \<and>
   req_username (buildPayload asciiLowerCase bob cleared_page) = None"
proof -
  have edited: "currentUser edited_page = Some alice"
    "formState edited_page
       = \<lparr>f_username = '' alicia '', f_email = ''Alice@Example.COM '', f_avatar = '' a.png'',
          f_password = ''secret'', f_passwordConfirmation = ''secret''\<rparr>"
    by (simp_all add: edited_page_def renamed_page_def ready_page_eq alice_form)
  have cleared: "currentUser cleared_page = Some bob"
    "formState cleared_page
       = \<lparr>f_username = ''bob'', f_email = ''bob@example.com'', f_avatar = ''  '',
          f_password = [], f_passwordConfirmation = []\<rparr>"
    by (simp_all add: cleared_page_def mount_def first_render_def userCache_subscribe_def
        cacheListener_def Let_def defaultFormState_def bob_def)
  have trims: "trim ''  '' = []" "trim ''bob'' = ''bob''"
    by (simp_all add: trim_def trimStart_def trimEnd_def whiteSpace_def)
  have bobs: "username bob = ''bob''" "avatarOrEmpty bob = ''b.png''"
    by (simp_all add: bob_def avatarOrEmpty_def)
  show ?thesis
    using change_set [where toLowerCase = asciiLowerCase, OF edited(1)]
          change_set [where toLowerCase = asciiLowerCase, OF cleared(1)]
    by (simp add: edited(2) cleared(2) trims bobs trim_examples asciiLowerCase_examples
        asciiLowerCase_twice alice_fields UpdateCurrentUserRequest.equality)
qed

text \<open>
  The page of a user whose stored email is \<^verbatim>\<open>'carol@example.com '\<close> and whose stored
  avatar is \<^verbatim>\<open>' c.png'\<close>, as seeded. As trimmed strings the form's email and avatar equal
  the user's, yet both are in the change-set, since the stored values are not trimmed.
\<close>

theorem stored_values_are_not_trimmed_counterexample:
  "f_email (formState spaced_page) = email spaced \<and>
   asciiLowerCase (trim (f_email (formState spaced_page))) = asciiLowerCase (trim (email spaced)) \<and>
   req_email (buildPayload asciiLowerCase spaced spaced_page) = Some ''carol@example.com'' \<and>
   f_avatar (formState spaced_page) = avatarOrEmpty spaced \<and>
   trim (f_avatar (formState spaced_page)) = trim (avatarOrEmpty spaced) \<and>
   req_avatar (buildPayload asciiLowerCase spaced spaced_page) = Some (Some ''c.png'')"
proof -
  have page: "currentUser spaced_page = Some spaced"
    "formState spaced_page
       = \<lparr>f_username = ''carol'', f_email = ''carol@example.com '', f_avatar = '' c.png'',
          f_password = [], f_passwordConfirmation = []\<rparr>"
    by (simp_all add: spaced_page_def mount_def first_render_def userCache_subscribe_def
        cacheListener_def Let_def defaultFormState_def spaced_def)
  have stored: "username spaced = ''carol''" "email spaced = ''carol@example.com ''"
    "avatarOrEmpty spaced = '' c.png''"
    by (simp_all add: spaced_def avatarOrEmpty_def)
  have trims: "trim ''carol'' = ''carol''" "trim ''carol@example.com '' = ''carol@example.com''"
    "trim '' c.png'' = ''c.png''"
    by (simp_all add: trim_def trimStart_def trimEnd_def whiteSpace_def)
  have lower: "asciiLowerCase ''carol@example.com'' = ''carol@example.com''"
    "asciiLowerCase ''carol@example.com '' = ''carol@example.com ''"
    by (simp_all add: asciiLowerCase_def lowerChar_def)
  show ?thesis
    by (simp add: page stored trims lower buildPayload_def hasProfileChanges_def
        hasPasswordChanges_def trimmedAvatar_def emptyRequest_def Let_def)
qed

section \<open>Server error mapping\<close>

text \<open>
  What the loop over the entries does with one entry whose key is not a property name of
  \<^verbatim>\<open>Object.prototype\<close>: the alias goes to the confirmation field, one of the five form keys
  to itself, anything else to \<^verbatim>\<open>general\<close>.
\<close>

lemma mapErrors_own_key:
  assumes "key \<notin> set objectPrototypeKeys"
  shows "mapErrors ((key, v) # es) ve =
           mapErrors es
             (if key = ''password_confirmation'' then ve(''passwordConfirmation'' \<mapsto> messageOf v)
              else if key \<in> set formStateKeys then ve(key \<mapsto> messageOf v)
              else ve(''general'' \<mapsto> messageOf v))"
proof -
  have "key \<noteq> ''__proto__''"
    using assms by (auto simp: objectPrototypeKeys_def)
  then show ?thesis
    using assms by (simp add: in_formState_def assign_def)
qed

lemma messageOf_joins: "messageOf (Many [a, b]) = a @ '' '' @ b"
  by simp

lemma confirmation_and_email_errors:
  "validationErrors \<lparr>body_error = e, body_errors = Some [(''password_confirmation'', m), (''email'', n)]\<rparr>
     = [''passwordConfirmation'' \<mapsto> messageOf m, ''email'' \<mapsto> messageOf n]"
  by (simp add: validationErrors_def in_formState_def formStateKeys_def assign_def)

text \<open>
  C9 at the response \<^verbatim>\<open>{ errors: { toString: 'is invalid' } }\<close> with status 422. The key
  is neither the alias nor one of the five form fields, yet \<^verbatim>\<open>'toString' in formState\<close>
  holds, so the message is stored under \<^verbatim>\<open>toString\<close> and the general slot stays unset.
\<close>

theorem inherited_key_misses_general_slot:
  "fieldErrors (handleSubmit_settle (Rejected (WithResponse 422 inherited_key_body)) renamed_page)
     = [''toString'' \<mapsto> ''is invalid''] \<and>
   fieldErrors (handleSubmit_settle (Rejected (WithResponse 422 inherited_key_body)) renamed_page)
     ''general'' = None \<and>
   ''toString'' \<notin> set formStateKeys \<and> ''toString'' \<noteq> ''password_confirmation''"
  by (simp add: handleSubmit_settle_def finally_fields validationErrors_def
      inherited_key_body_def in_formState_def objectPrototypeKeys_def formStateKeys_def
      assign_def)

section \<open>Re-entrant mutation\<close>

lemma steps_add: "steps react (m + n) c = steps react n (steps react m c)"
  by (induction m arbitrary: c) simp_all

lemma quiet_fanout:
  assumes "\<And>l h. l \<in> set (live (drop i (listeners c))) \<Longrightarrow> react l h (cachedUser c) = []"
  shows "steps react (fanout_steps (drop i (listeners c))) (c\<lparr>stack := ForEach i # rest\<rparr>)
           = c\<lparr>stack := rest,
                log := log c @ map (\<lambda>l. Invoked l (cachedUser c)) (live (drop i (listeners c)))\<rparr>"
  using assms
proof (induction "length (listeners c) - i" arbitrary: i c)
  case 0
  then show ?case by simp
next
  case (Suc k)
  then have inside: "i < length (listeners c)"
    by simp
  then have unfold: "drop i (listeners c) = listeners c ! i # drop (Suc i) (listeners c)"
    by (simp add: Cons_nth_drop_Suc)
  have smaller: "k = length (listeners c) - Suc i"
    using Suc.hyps(2) by simp
  show ?case
  proof (cases "listeners c ! i")
    case None
    have later: "\<And>l h. l \<in> set (live (drop (Suc i) (listeners c))) \<Longrightarrow> react l h (cachedUser c) = []"
      using Suc.prems unfold None by simp
    have "steps react (fanout_steps (drop (Suc i) (listeners c))) (c\<lparr>stack := ForEach (Suc i) # rest\<rparr>)
            = c\<lparr>stack := rest,
                 log := log c @ map (\<lambda>l. Invoked l (cachedUser c)) (live (drop (Suc i) (listeners c)))\<rparr>"
      using Suc.hyps(1) [OF smaller later] by simp
    then show ?thesis
      using inside None unfold by simp
  next
    case (Some l)
    define c' where "c' = c\<lparr>log := log c @ [Invoked l (cachedUser c)]\<rparr>"
    have quiet_l: "react l (log c) (cachedUser c) = []"
      using Suc.prems [of l] unfold Some by simp
    have later: "\<And>l h. l \<in> set (live (drop (Suc i) (listeners c'))) \<Longrightarrow> react l h (cachedUser c') = []"
      using Suc.prems unfold Some by (simp add: c'_def)
    have smaller': "k = length (listeners c') - Suc i"
      using smaller by (simp add: c'_def)
    have two: "steps react 2 (c\<lparr>stack := ForEach i # rest\<rparr>) = c'\<lparr>stack := ForEach (Suc i) # rest\<rparr>"
      using inside Some quiet_l by (simp add: numeral_2_eq_2 invoke_def c'_def)
    have "steps react (fanout_steps (drop (Suc i) (listeners c'))) (c'\<lparr>stack := ForEach (Suc i) # rest\<rparr>)
            = c'\<lparr>stack := rest,
                  log := log c' @ map (\<lambda>l. Invoked l (cachedUser c')) (live (drop (Suc i) (listeners c')))\<rparr>"
      using Suc.hyps(1) [OF smaller' later] by simp
    then have "steps react (2 + fanout_steps (drop (Suc i) (listeners c))) (c\<lparr>stack := ForEach i # rest\<rparr>)
            = c\<lparr>stack := rest,
                 log := log c @ Invoked l (cachedUser c)
                          # map (\<lambda>l. Invoked l (cachedUser c)) (live (drop (Suc i) (listeners c)))\<rparr>"
      unfolding steps_add two by (simp add: c'_def)
    then show ?thesis
      using Some unfold by simp
  qed
qed

text \<open>
  A call of \<^verbatim>\<open>setCurrentUser\<close> or \<^verbatim>\<open>clear\<close>, from anywhere, when no listener answers the
  new value with a cache call: the cell holds the new value, every registered listener
  has been invoked once with it, in registration order, and the caller goes on.
\<close>

lemma quiet_set:
  assumes "\<And>l h. l \<in> set (live (listeners c)) \<Longrightarrow> react l h u = []"
    and "a = SetCurrentUser u \<or> a = Clear \<and> u = None"
  shows "steps react (Suc (fanout_steps (listeners c))) (c\<lparr>stack := Script (a # as) # rest\<rparr>)
           = c\<lparr>cachedUser := u,
                stack := Script as # rest,
                log := log c @ map (\<lambda>l. Invoked l u) (live (listeners c))\<rparr>"
proof -
  define c' where "c' = c\<lparr>cachedUser := u\<rparr>"
  have first: "step react (c\<lparr>stack := Script (a # as) # rest\<rparr>)
                 = c'\<lparr>stack := ForEach 0 # Script as # rest\<rparr>"
    using assms(2) by (auto simp: c'_def)
  have "\<And>l h. l \<in> set (live (drop 0 (listeners c'))) \<Longrightarrow> react l h (cachedUser c') = []"
    using assms(1) by (simp add: c'_def)
  then have "steps react (fanout_steps (drop 0 (listeners c')))
               (c'\<lparr>stack := ForEach 0 # Script as # rest\<rparr>)
             = c'\<lparr>stack := Script as # rest,
                   log := log c' @ map (\<lambda>l. Invoked l (cachedUser c')) (live (drop 0 (listeners c')))\<rparr>"
    by (rule quiet_fanout)
  then show ?thesis
    unfolding steps.simps first by (simp add: c'_def)
qed

text \<open>
  C2, as the code has it. A \<^verbatim>\<open>setCurrentUser\<close> (or \<^verbatim>\<open>clear\<close>) that a listener makes while a
  fan-out is at slot \<open>i\<close> is carried out on the spot: the next step replaces the cell and
  puts a second activation of \<^verbatim>\<open>notify\<close> on top of the suspended one. When no listener
  answers the new value with a cache call, that nested fan-out invokes every registered
  listener once, in registration order, with the new value, and only then do the rest of
  the callback and the outer fan-out go on, from slot \<open>i\<close>, with the new value in the cell.
\<close>

theorem reentrant_set_runs_inline:
  assumes "\<And>l h. l \<in> set (live (listeners c)) \<Longrightarrow> react l h u = []"
    and "a = SetCurrentUser u \<or> a = Clear \<and> u = None"
  shows "steps react (Suc (fanout_steps (listeners c)))
             (c\<lparr>stack := Script (a # as) # ForEach i # rest\<rparr>)
           = c\<lparr>cachedUser := u,
                stack := Script as # ForEach i # rest,
                log := log c @ map (\<lambda>l. Invoked l u) (live (listeners c))\<rparr> \<and>
         stack (step react (c\<lparr>stack := Script (a # as) # ForEach i # rest\<rparr>))
           = ForEach 0 # Script as # ForEach i # rest \<and>
         fanout_depth (stack (step react (c\<lparr>stack := Script (a # as) # ForEach i # rest\<rparr>)))
           = Suc (Suc (fanout_depth rest))"
proof -
  have nested: "stack (step react (c\<lparr>stack := Script (a # as) # ForEach i # rest\<rparr>))
                  = ForEach 0 # Script as # ForEach i # rest"
    using assms(2) by auto
  show ?thesis
    using quiet_set
            [where c = c and react = react and u = u and a = a and as = as
               and rest = "ForEach i # rest", OF assms]
          nested
    by simp
qed

theorem reentrant_set_runs_inline_witness:
  "steps echo 6 (inside_callback\<lparr>stack := [Script [SetCurrentUser (Some bob)], ForEach 1, Script []]\<rparr>)
     = \<lparr>cachedUser = Some bob, listeners = [Some 0, Some 1],
        stack = [Script [], ForEach 1, Script []],
        log = [Invoked 0 (Some alice), Invoked 0 (Some bob), Invoked 1 (Some bob)]\<rparr>"
proof -
  have quiet_on_bob: "\<And>l h. l \<in> set (live (listeners inside_callback)) \<Longrightarrow> echo l h (Some bob) = []"
    by (simp add: echo_def alice_def bob_def)
  show ?thesis
    using reentrant_set_runs_inline
            [where c = inside_callback and react = echo and u = "Some bob"
               and a = "SetCurrentUser (Some bob)" and as = "[]" and i = 1 and rest = "[Script []]",
             OF quiet_on_bob]
    by (simp add: inside_callback_def)
qed

theorem reentrant_set_is_not_deferred_counterexample:
  "steps echo 2 two_listeners = inside_callback\<lparr>stack := [Script [SetCurrentUser (Some bob)], ForEach 1, Script []]\<rparr> \<and>
   fanout_depth (stack (steps echo 3 two_listeners)) = 2 \<and>
   steps echo 9 two_listeners
     = \<lparr>cachedUser = Some bob, listeners = [Some 0, Some 1],
        stack = [ForEach 1, Script []],
        log = [Invoked 0 (Some alice), Invoked 0 (Some bob), Invoked 1 (Some bob)]\<rparr> \<and>
   run echo 13 two_listeners
     = Some \<lparr>cachedUser = Some bob, listeners = [Some 0, Some 1], stack = [],
             log = [Invoked 0 (Some alice), Invoked 0 (Some bob), Invoked 1 (Some bob),
                    Invoked 1 (Some bob)]\<rparr> \<and>
   heard 1 (log (steps echo 13 two_listeners)) = [Some bob, Some bob]"
  by (simp add: eval_nat_numeral two_listeners_def inside_callback_def echo_def invoke_def
      alice_def bob_def)

section \<open>Unsubscribing\<close>

lemma heard_append: "heard l (xs @ ys) = heard l xs @ heard l ys"
  by (induction xs rule: heard.induct) simp_all

lemma not_in_add_listener: "l' \<noteq> l \<Longrightarrow> Some l \<notin> set ls \<Longrightarrow> Some l \<notin> set (add_listener l' ls)"
  by (simp add: add_listener_def)

lemma not_in_delete_listener: "Some l \<notin> set ls \<Longrightarrow> Some l \<notin> set (delete_listener l' ls)"
  by (auto simp: delete_listener_def)

lemma deleted: "Some l \<notin> set (delete_listener l ls)"
  by (auto simp: delete_listener_def)

lemma delete_listener_twice: "delete_listener l (delete_listener l ls) = delete_listener l ls"
  by (simp add: delete_listener_def)

text \<open>
  While a listener is neither registered nor about to be subscribed again, a step keeps
  it so and adds nothing to what it has heard.
\<close>

lemma step_silent:
  assumes never: "\<And>l' h v. Subscribe l \<notin> set (react l' h v)"
    and out: "Some l \<notin> set (listeners c)"
    and none: "\<not> resubscribed l (stack c)"
  shows "Some l \<notin> set (listeners (step react c)) \<and>
         \<not> resubscribed l (stack (step react c)) \<and>
         heard l (log (step react c)) = heard l (log c)"
proof (cases "stack c")
  case Nil
  then show ?thesis using out by simp
next
  case (Cons f rest)
  show ?thesis
  proof (cases f)
    case (Script as)
    show ?thesis
    proof (cases as)
      case Nil
      then show ?thesis using Cons Script out none by simp
    next
      case (Cons a as')
      have later: "\<not> resubscribed l (Script as' # rest)" and this_one: "a \<noteq> Subscribe l"
        using none \<open>stack c = f # rest\<close> Script Cons by auto
      show ?thesis
      proof (cases a)
        case (SetCurrentUser u)
        then show ?thesis using \<open>stack c = f # rest\<close> Script Cons out later by simp
      next
        case Clear
        then show ?thesis using \<open>stack c = f # rest\<close> Script Cons out later by simp
      next
        case (Subscribe l')
        then have "l' \<noteq> l" using this_one by simp
        then show ?thesis
          using \<open>stack c = f # rest\<close> Script Cons Subscribe out later never
          by (simp add: invoke_def heard_append not_in_add_listener)
      next
        case (Unsubscribe l')
        then show ?thesis
          using \<open>stack c = f # rest\<close> Script Cons out later
          by (simp add: not_in_delete_listener)
      qed
    qed
  next
    case (ForEach i)
    have rest_free: "\<not> resubscribed l rest"
      using none Cons ForEach by simp
    show ?thesis
    proof (cases "i < length (listeners c)")
      case False
      then show ?thesis using Cons ForEach out rest_free by simp
    next
      case True
      show ?thesis
      proof (cases "listeners c ! i")
        case None
        then show ?thesis using Cons ForEach True out rest_free by simp
      next
        case (Some l')
        then have "Some l' \<in> set (listeners c)"
          using True nth_mem by fastforce
        then have "l' \<noteq> l"
          using out by auto
        then show ?thesis
          using Cons ForEach True Some out rest_free never
          by (simp add: invoke_def heard_append)
      qed
    qed
  qed
qed

lemma steps_silent:
  assumes "\<And>l' h v. Subscribe l \<notin> set (react l' h v)"
    and "Some l \<notin> set (listeners c)"
    and "\<not> resubscribed l (stack c)"
  shows "Some l \<notin> set (listeners (steps react n c)) \<and>
         \<not> resubscribed l (stack (steps react n c)) \<and>
         heard l (log (steps react n c)) = heard l (log c)"
  using assms(2,3)
proof (induction n arbitrary: c)
  case 0
  then show ?case by simp
next
  case (Suc n)
  have one: "Some l \<notin> set (listeners (step react c)) \<and>
             \<not> resubscribed l (stack (step react c)) \<and>
             heard l (log (step react c)) = heard l (log c)"
    using assms(1) Suc.prems by (rule step_silent)
  then have "Some l \<notin> set (listeners (steps react n (step react c))) \<and>
             \<not> resubscribed l (stack (steps react n (step react c))) \<and>
             heard l (log (steps react n (step react c))) = heard l (log (step react c))"
    using Suc.IH by blast
  then show ?case
    using one by simp
qed

text \<open>
  C10. From the call of the unsubscribe closure of a listener on, however many steps the
  program takes and whatever calls of \<^verbatim>\<open>setCurrentUser\<close> and \<^verbatim>\<open>clear\<close> follow, in the
  calling function, in the functions below it on the call stack (a fan-out that is still
  under way among them, when the closure is called from the listener's own callback) or
  in the callbacks of other listeners, the listener is not invoked again and is not in
  the listener set, as long as nobody passes it to \<^verbatim>\<open>subscribe\<close> again. Calling the
  closure a second time changes nothing.
\<close>

theorem unsubscribed_listener_hears_nothing:
  assumes "\<And>l' h v. Subscribe l \<notin> set (react l' h v)"
    and "\<not> resubscribed l (Script as # rest)"
  shows "heard l (log (steps react n (c\<lparr>stack := Script (Unsubscribe l # as) # rest\<rparr>)))
           = heard l (log c) \<and>
         Some l \<notin> set (listeners (steps react (Suc n) (c\<lparr>stack := Script (Unsubscribe l # as) # rest\<rparr>))) \<and>
         delete_listener l (delete_listener l (listeners c)) = delete_listener l (listeners c) \<and>
         steps react 2 (c\<lparr>stack := Script (Unsubscribe l # Unsubscribe l # as) # rest\<rparr>)
           = step react (c\<lparr>stack := Script (Unsubscribe l # as) # rest\<rparr>)"
proof -
  define c1 where "c1 = c\<lparr>listeners := delete_listener l (listeners c), stack := Script as # rest\<rparr>"
  have first: "step react (c\<lparr>stack := Script (Unsubscribe l # as) # rest\<rparr>) = c1"
    by (simp add: c1_def)
  have out: "Some l \<notin> set (listeners c1)"
    by (simp add: c1_def deleted)
  have none: "\<not> resubscribed l (stack c1)"
    using assms(2) by (simp add: c1_def)
  have after: "Some l \<notin> set (listeners (steps react m c1)) \<and>
               heard l (log (steps react m c1)) = heard l (log c)" for m
    using steps_silent [where n = m, OF assms(1) out none] by (simp add: c1_def)
  have heard_n: "heard l (log (steps react n (c\<lparr>stack := Script (Unsubscribe l # as) # rest\<rparr>)))
                   = heard l (log c)"
  proof (cases n)
    case 0
    then show ?thesis by simp
  next
    case (Suc m)
    then show ?thesis using after [of m] first by simp
  qed
  have gone: "Some l \<notin> set (listeners (steps react (Suc n) (c\<lparr>stack := Script (Unsubscribe l # as) # rest\<rparr>)))"
    using after [of n] first by simp
  have twice: "steps react 2 (c\<lparr>stack := Script (Unsubscribe l # Unsubscribe l # as) # rest\<rparr>)
                 = step react (c\<lparr>stack := Script (Unsubscribe l # as) # rest\<rparr>)"
    by (simp add: numeral_2_eq_2 delete_listener_twice)
  show ?thesis
    using heard_n gone twice by (simp add: delete_listener_twice)
qed

theorem unsubscribed_listener_hears_nothing_witness:
  "heard 0 (log (steps selfish 20
      (inside_callback
         \<lparr>stack := [Script [Unsubscribe 0, Unsubscribe 0, SetCurrentUser (Some bob)],
                    ForEach 1, Script [Clear]]\<rparr>)))
     = [Some alice] \<and>
   steps selfish 20
      (inside_callback
         \<lparr>stack := [Script [Unsubscribe 0, Unsubscribe 0, SetCurrentUser (Some bob)],
                    ForEach 1, Script [Clear]]\<rparr>)
     = \<lparr>cachedUser = None, listeners = [None, Some 1], stack = [],
        log = [Invoked 0 (Some alice), Invoked 1 (Some bob), Invoked 1 (Some bob),
               Invoked 1 None]\<rparr>"
proof -
  have never: "\<And>l' h v. Subscribe 0 \<notin> set (selfish l' h v)"
    by (simp add: selfish_def)
  have none: "\<not> resubscribed 0
      (Script [Unsubscribe 0, SetCurrentUser (Some bob)] # [ForEach 1, Script [Clear]])"
    by simp
  have run: "steps selfish 20
      (inside_callback
         \<lparr>stack := [Script [Unsubscribe 0, Unsubscribe 0, SetCurrentUser (Some bob)],
                    ForEach 1, Script [Clear]]\<rparr>)
     = \<lparr>cachedUser = None, listeners = [None, Some 1], stack = [],
        log = [Invoked 0 (Some alice), Invoked 1 (Some bob), Invoked 1 (Some bob),
               Invoked 1 None]\<rparr>"
    by (simp add: eval_nat_numeral inside_callback_def selfish_def invoke_def
        delete_listener_def alice_def bob_def)
  show ?thesis
    using unsubscribed_listener_hears_nothing
            [where react = selfish and l = 0 and n = 20 and c = inside_callback
               and as = "[Unsubscribe 0, SetCurrentUser (Some bob)]"
               and rest = "[ForEach 1, Script [Clear]]", OF never none]
          run
    by (simp add: inside_callback_def)
qed

end
